theory Spec2Isabelle
  imports Main "HOL-Library.Sublist"
begin

section \<open>The upgrade features of pip-compile-multi\<close>

text \<open>
  A shallow embedding of \<^verbatim>\<open>pipcompilemulti/features/upgrade.py\<close>: the two features
  \<^verbatim>\<open>UpgradeAll\<close> and \<^verbatim>\<open>UpgradeSelected\<close>, the latter with its memoized table of the
  packages pinned in each environment's compiled output file.

  Strings are \<^typ>\<open>string\<close>; package names, paths and file texts are taken to be ASCII, so
  that \<^verbatim>\<open>str.lower\<close> is the character-wise map of \<open>A\<close>..\<open>Z\<close> to \<open>a\<close>..\<open>z\<close>.
  The file system is a parameter of every operation that reads it: a path either cannot be
  opened or read (\<^verbatim>\<open>open\<close> raises \<^verbatim>\<open>IOError\<close>), or it holds a text (after decoding and
  newline translation). The instance attribute \<^verbatim>\<open>_env_packages_cache\<close> is mutated in
  place by the source; here every method that may touch it returns the updated object
  beside its result. An exception is a value \<open>Inl e\<close> of the result type.
\<close>

subsection \<open>Strings\<close>

definition lower_char :: "char \<Rightarrow> char" where
  "lower_char c =
     (let n = (of_char c :: nat)
      in if 65 \<le> n \<and> n \<le> 90 then char_of (n + 32) else c)"

text \<open>\<^verbatim>\<open>s.lower()\<close>\<close>

definition lower :: "string \<Rightarrow> string" where
  "lower s = map lower_char s"

text \<open>\<^verbatim>\<open>sep in s\<close>: \<open>sep\<close> occurs in \<open>s\<close> as a contiguous substring.\<close>

fun str_in :: "string \<Rightarrow> string \<Rightarrow> bool" where
  "str_in sep [] = (sep = [])"
| "str_in sep (c # cs) = (prefix sep (c # cs) \<or> str_in sep cs)"

text \<open>
  \<^verbatim>\<open>s.split(sep, 1)[0]\<close> for a non-empty separator: the part of \<open>s\<close> before the leftmost
  occurrence of \<open>sep\<close>, and all of \<open>s\<close> when \<open>sep\<close> does not occur.
\<close>

fun split1_head :: "string \<Rightarrow> string \<Rightarrow> string" where
  "split1_head sep [] = []"
| "split1_head sep (c # cs) =
     (if prefix sep (c # cs) then [] else c # split1_head sep cs)"

text \<open>
  Iterating over an open text file yields its lines, each with its terminating newline
  (the last line may lack one).
\<close>

fun file_lines :: "string \<Rightarrow> string list" where
  "file_lines [] = []"
| "file_lines (c # cs) =
     (if c = CHR 0x0A then [c] # file_lines cs
      else (case file_lines cs of
              [] \<Rightarrow> [[c]]
            | l # ls \<Rightarrow> (c # l) # ls))"

subsection \<open>Files and exceptions\<close>

datatype exn = IOError

text \<open>A path maps to \<open>None\<close> when opening or reading it raises \<^verbatim>\<open>IOError\<close>.\<close>

type_synonym filesystem = "string \<Rightarrow> string option"

definition open_lines :: "filesystem \<Rightarrow> string \<Rightarrow> exn + string list" where
  "open_lines fs outfile =
     (case fs outfile of
        None \<Rightarrow> Inl IOError
      | Some text \<Rightarrow> Inr (file_lines text))"

subsection \<open>UpgradeSelected\<close>

text \<open>
  \<open>us_value\<close> is the feature's option value, \<^verbatim>\<open>BaseFeature.value\<close>: \<open>None\<close> when no value
  is configured, otherwise the sequence of package names given on the command line.
\<close>

record upgrade_selected =
  us_value :: "string list option"
  env_packages_cache :: "string \<rightharpoonup> string set"

text \<open>
  \<^verbatim>\<open>controller.compose_output_file_path\<close> belongs to the controller; it is a parameter
  \<open>compose\<close> of the operations below.
\<close>

definition reset :: "upgrade_selected \<Rightarrow> upgrade_selected" where
  "reset self = self\<lparr>env_packages_cache := Map.empty\<rparr>"

definition package_names :: "upgrade_selected \<Rightarrow> string list" where
  "package_names self =
     (case us_value self of
        None \<Rightarrow> []
      | Some v \<Rightarrow> (if v = [] then [] else v))"

definition active :: "upgrade_selected \<Rightarrow> bool" where
  "active self = (package_names self \<noteq> [])"

definition read_packages :: "filesystem \<Rightarrow> string \<Rightarrow> exn + string set" where
  "read_packages fs outfile =
     (case open_lines fs outfile of
        Inr fp \<Rightarrow>
          Inr (set (map (\<lambda>line. lower (split1_head ''=='' line))
                        (filter (\<lambda>line. str_in ''=='' line) fp)))
      | Inl IOError \<Rightarrow> Inr {})"

definition env_packages ::
  "filesystem \<Rightarrow> (string \<Rightarrow> string) \<Rightarrow> upgrade_selected \<Rightarrow> string
     \<Rightarrow> exn + (string set \<times> upgrade_selected)" where
  "env_packages fs compose self env_name =
     (case env_packages_cache self env_name of
        Some pkgs \<Rightarrow> Inr (pkgs, self)
      | None \<Rightarrow>
          (case read_packages fs (compose env_name) of
             Inl e \<Rightarrow> Inl e
           | Inr pkgs \<Rightarrow>
               Inr (pkgs,
                    self\<lparr>env_packages_cache := (env_packages_cache self)(env_name \<mapsto> pkgs)\<rparr>)))"

definition has_package ::
  "filesystem \<Rightarrow> (string \<Rightarrow> string) \<Rightarrow> upgrade_selected \<Rightarrow> string \<Rightarrow> string
     \<Rightarrow> exn + (bool \<times> upgrade_selected)" where
  "has_package fs compose self env_name package_name =
     (case env_packages fs compose self env_name of
        Inl e \<Rightarrow> Inl e
      | Inr (pkgs, self') \<Rightarrow> Inr (lower package_name \<in> pkgs, self'))"

text \<open>The list comprehension of \<^verbatim>\<open>pin_options\<close>, over the remaining package names.\<close>

fun pin_options_from ::
  "filesystem \<Rightarrow> (string \<Rightarrow> string) \<Rightarrow> upgrade_selected \<Rightarrow> string \<Rightarrow> string list
     \<Rightarrow> exn + (string list \<times> upgrade_selected)" where
  "pin_options_from fs compose self env_name [] = Inr ([], self)"
| "pin_options_from fs compose self env_name (package # rest) =
     (case has_package fs compose self env_name package of
        Inl e \<Rightarrow> Inl e
      | Inr (found, self') \<Rightarrow>
          (case pin_options_from fs compose self' env_name rest of
             Inl e \<Rightarrow> Inl e
           | Inr (opts, self'') \<Rightarrow>
               Inr ((if found then [''--upgrade-package='' @ package] else []) @ opts,
                    self'')))"

definition pin_options ::
  "filesystem \<Rightarrow> (string \<Rightarrow> string) \<Rightarrow> upgrade_selected \<Rightarrow> string
     \<Rightarrow> exn + (string list \<times> upgrade_selected)" where
  "pin_options fs compose self env_name =
     pin_options_from fs compose self env_name (package_names self)"

text \<open>\<^verbatim>\<open>any(...)\<close> over a generator: it stops at the first package that is found.\<close>

fun any_has_package ::
  "filesystem \<Rightarrow> (string \<Rightarrow> string) \<Rightarrow> upgrade_selected \<Rightarrow> string \<Rightarrow> string list
     \<Rightarrow> exn + (bool \<times> upgrade_selected)" where
  "any_has_package fs compose self env_name [] = Inr (False, self)"
| "any_has_package fs compose self env_name (package_name # rest) =
     (case has_package fs compose self env_name package_name of
        Inl e \<Rightarrow> Inl e
      | Inr (found, self') \<Rightarrow>
          (if found then Inr (True, self')
           else any_has_package fs compose self' env_name rest))"

definition affected ::
  "filesystem \<Rightarrow> (string \<Rightarrow> string) \<Rightarrow> upgrade_selected \<Rightarrow> string
     \<Rightarrow> exn + (bool \<times> upgrade_selected)" where
  "affected fs compose self env_name =
     (if \<not> active self then Inr (True, self)
      else any_has_package fs compose self env_name (package_names self))"

subsection \<open>UpgradeAll\<close>

text \<open>
  \<open>ua_value\<close> is the boolean flag \<^verbatim>\<open>--upgrade/--no-upgrade\<close>; \<open>ua_upgrade_selected\<close> is
  the object reached as \<^verbatim>\<open>self._controller.upgrade_selected\<close>.
\<close>

record upgrade_all =
  ua_value :: bool
  ua_upgrade_selected :: upgrade_selected

definition enabled :: "upgrade_all \<Rightarrow> bool" where
  "enabled self = (ua_value self \<and> \<not> active (ua_upgrade_selected self))"

definition ua_pin_options :: "upgrade_all \<Rightarrow> string list" where
  "ua_pin_options self = (if enabled self then [''--upgrade''] else [])"

subsection \<open>Notions used to state the properties\<close>

text \<open>
  The memoized entry of an environment, if there is one, is what a fresh read of its output
  file gives: the table is in step with the file system. This holds after \<open>reset\<close> and is
  kept by every operation as long as the file system is the one the entries were read from.
\<close>

definition cache_in_sync ::
  "filesystem \<Rightarrow> (string \<Rightarrow> string) \<Rightarrow> upgrade_selected \<Rightarrow> string \<Rightarrow> bool" where
  "cache_in_sync fs compose self env_name =
     (case env_packages_cache self env_name of
        None \<Rightarrow> True
      | Some pkgs \<Rightarrow> read_packages fs (compose env_name) = Inr pkgs)"

text \<open>The object after \<open>pkgs\<close> has been stored in the table under \<open>env_name\<close>.\<close>

abbreviation memoize :: "upgrade_selected \<Rightarrow> string \<Rightarrow> string set \<Rightarrow> upgrade_selected" where
  "memoize self env_name pkgs \<equiv>
     self\<lparr>env_packages_cache := (env_packages_cache self)(env_name \<mapsto> pkgs)\<rparr>"

abbreviation upgrade_arg :: "string \<Rightarrow> string" where
  "upgrade_arg package \<equiv> ''--upgrade-package='' @ package"

text \<open>
  In the words of the specification: a pin line is a line that contains the delimiter
  \<open>==\<close>, and its package name is the part to the left of the first occurrence.
\<close>

definition is_pin_line :: "string \<Rightarrow> bool" where
  "is_pin_line line \<longleftrightarrow> (\<exists>name rest. line = name @ ''=='' @ rest)"

definition pin_name_of :: "string \<Rightarrow> string \<Rightarrow> bool" where
  "pin_name_of line name \<longleftrightarrow>
     (\<exists>rest. line = name @ ''=='' @ rest \<and>
        (\<forall>name' rest'. line = name' @ ''=='' @ rest' \<longrightarrow> length name \<le> length name'))"

subsection \<open>A small configuration\<close>

text \<open>
  Two environments with compiled output and one without; the packages \<open>FOO\<close>, \<open>baz\<close> and
  \<open>bar\<close> are requested. \<open>example_fs'\<close> is the file system after the first output file has
  been rewritten.
\<close>

definition example_compose :: "string \<Rightarrow> string" where
  "example_compose env_name = env_name @ ''.txt''"

definition example_fs :: filesystem where
  "example_fs outfile =
     (if outfile = ''E1.txt'' then Some ''# pins\<newline>Foo==1.0\<newline>\<newline>bar==2.0\<newline>''
      else if outfile = ''E2.txt'' then Some ''bar==2.0\<newline>''
      else None)"

definition example_fs' :: filesystem where
  "example_fs' outfile =
     (if outfile = ''E1.txt'' then Some ''baz==3.1\<newline>''
      else example_fs outfile)"

definition example_self :: upgrade_selected where
  "example_self =
     \<lparr>us_value = Some [''FOO'', ''baz'', ''bar''], env_packages_cache = Map.empty\<rparr>"

section \<open>Auxiliary facts\<close>

subsection \<open>Lower-casing, substring test and split\<close>

lemma lower_char_idem: "lower_char (lower_char c) = lower_char c"
  by (simp add: lower_char_def Let_def)

lemma lower_idem: "lower (lower s) = lower s"
  by (simp add: lower_def lower_char_idem)

lemma str_in_iff: "str_in sep s \<longleftrightarrow> (\<exists>a b. s = a @ sep @ b)"
proof (induction s)
  case Nil
  show ?case by auto
next
  case (Cons c cs)
  show ?case
  proof
    assume "str_in sep (c # cs)"
    then consider "prefix sep (c # cs)" | "str_in sep cs" by auto
    then show "\<exists>a b. c # cs = a @ sep @ b"
    proof cases
      case 1
      then obtain b where "c # cs = sep @ b" by (auto simp: prefix_def)
      then have "c # cs = [] @ sep @ b" by simp
      then show ?thesis by blast
    next
      case 2
      with Cons.IH obtain a b where "cs = a @ sep @ b" by blast
      then have "c # cs = (c # a) @ sep @ b" by simp
      then show ?thesis by blast
    qed
  next
    assume "\<exists>a b. c # cs = a @ sep @ b"
    then obtain a b where ab: "c # cs = a @ sep @ b" by blast
    show "str_in sep (c # cs)"
    proof (cases a)
      case Nil
      with ab have "prefix sep (c # cs)" by (simp add: prefix_def)
      then show ?thesis by simp
    next
      case (Cons x a')
      with ab have "cs = a' @ sep @ b" by simp
      with Cons.IH have "str_in sep cs" by blast
      then show ?thesis by simp
    qed
  qed
qed

lemma split1_head_decomp:
  "str_in sep s \<Longrightarrow> \<exists>b. s = split1_head sep s @ sep @ b"
proof (induction s)
  case Nil
  then show ?case by simp
next
  case (Cons c cs)
  show ?case
  proof (cases "prefix sep (c # cs)")
    case True
    then show ?thesis by (auto simp: prefix_def)
  next
    case False
    with Cons.prems have "str_in sep cs" by simp
    with Cons.IH obtain b where "cs = split1_head sep cs @ sep @ b" by blast
    with False show ?thesis by auto
  qed
qed

lemma split1_head_leftmost:
  "s = a @ sep @ b \<Longrightarrow> length (split1_head sep s) \<le> length a"
proof (induction s arbitrary: a)
  case Nil
  then show ?case by simp
next
  case (Cons c cs)
  show ?case
  proof (cases "prefix sep (c # cs)")
    case True
    then show ?thesis by simp
  next
    case False
    with Cons.prems obtain a' where a: "a = c # a'" and "cs = a' @ sep @ b"
      by (cases a) (auto simp: prefix_def)
    with Cons.IH have "length (split1_head sep cs) \<le> length a'" by blast
    with False a show ?thesis by simp
  qed
qed

lemma split1_head_unique:
  assumes "s = a @ sep @ b"
    and "\<forall>a' b'. s = a' @ sep @ b' \<longrightarrow> length a \<le> length a'"
  shows "split1_head sep s = a"
proof -
  have "str_in sep s" using assms(1) str_in_iff by blast
  then obtain b0 where d: "s = split1_head sep s @ sep @ b0"
    using split1_head_decomp by blast
  with assms(2) have "length a \<le> length (split1_head sep s)" by blast
  moreover have "length (split1_head sep s) \<le> length a"
    using assms(1) by (rule split1_head_leftmost)
  ultimately have "length (split1_head sep s) = length a" by simp
  with d assms(1) show ?thesis
    by (metis append_eq_append_conv)
qed

lemma split1_head_no_eq:
  assumes "CHR ''='' \<notin> set name"
  shows "split1_head ''=='' (name @ ''=='' @ rest) = name"
  using assms by (induction name) (auto simp: prefix_def)

lemma read_packages_None: "fs outfile = None \<Longrightarrow> read_packages fs outfile = Inr {}"
  by (simp add: read_packages_def open_lines_def)

lemma read_packages_Some:
  "fs outfile = Some text \<Longrightarrow>
   read_packages fs outfile =
     Inr ((\<lambda>line. lower (split1_head ''=='' line)) ` {line \<in> set (file_lines text). str_in ''=='' line})"
  by (simp add: read_packages_def open_lines_def)

lemma read_packages_total: "\<exists>pkgs. read_packages fs outfile = Inr pkgs"
  by (cases "fs outfile") (simp_all add: read_packages_None read_packages_Some)

subsection \<open>The memoized table\<close>

lemma memoize_hit:
  "env_packages_cache self E = Some pkgs \<Longrightarrow> memoize self E pkgs = self"
  by (simp add: fun_upd_idem)

lemma env_packages_hit:
  "env_packages_cache self E = Some pkgs \<Longrightarrow> env_packages fs compose self E = Inr (pkgs, self)"
  by (simp add: env_packages_def)

lemma env_packages_miss:
  "env_packages_cache self E = None \<Longrightarrow> read_packages fs (compose E) = Inr pkgs \<Longrightarrow>
   env_packages fs compose self E = Inr (pkgs, memoize self E pkgs)"
  by (simp add: env_packages_def)

lemma env_packages_in_sync:
  assumes "cache_in_sync fs compose self E" and "read_packages fs (compose E) = Inr pkgs"
  shows "env_packages fs compose self E = Inr (pkgs, memoize self E pkgs)"
proof (cases "env_packages_cache self E")
  case None
  then show ?thesis using assms(2) by (rule env_packages_miss)
next
  case (Some cached)
  with assms have "cached = pkgs" by (simp add: cache_in_sync_def)
  with Some show ?thesis by (simp add: env_packages_hit memoize_hit)
qed

lemma env_packages_total:
  "\<exists>pkgs. env_packages fs compose self E = Inr (pkgs, memoize self E pkgs)"
proof (cases "env_packages_cache self E")
  case None
  obtain pkgs where "read_packages fs (compose E) = Inr pkgs"
    using read_packages_total by blast
  with None show ?thesis using env_packages_miss by blast
next
  case (Some cached)
  then show ?thesis by (auto simp: env_packages_hit memoize_hit)
qed

lemma has_package_via:
  "env_packages fs compose self E = Inr (pkgs, self') \<Longrightarrow>
   has_package fs compose self E p = Inr (lower p \<in> pkgs, self')"
  by (simp add: has_package_def)

lemma has_package_hit:
  "env_packages_cache self E = Some pkgs \<Longrightarrow>
   has_package fs compose self E p = Inr (lower p \<in> pkgs, self)"
  by (simp add: has_package_via env_packages_hit)

lemma pin_options_from_hit:
  "env_packages_cache self E = Some pkgs \<Longrightarrow>
   pin_options_from fs compose self E ps =
     Inr (map upgrade_arg (filter (\<lambda>p. lower p \<in> pkgs) ps), self)"
  by (induction ps) (simp_all add: has_package_hit)

lemma any_has_package_hit:
  "env_packages_cache self E = Some pkgs \<Longrightarrow>
   any_has_package fs compose self E ps = Inr (\<exists>p \<in> set ps. lower p \<in> pkgs, self)"
  by (induction ps) (simp_all add: has_package_hit)

lemma pin_options_from_via:
  assumes "env_packages fs compose self E = Inr (pkgs, memoize self E pkgs)" and "ps \<noteq> []"
  shows "pin_options_from fs compose self E ps =
           Inr (map upgrade_arg (filter (\<lambda>p. lower p \<in> pkgs) ps), memoize self E pkgs)"
proof -
  from assms(2) obtain p rest where ps: "ps = p # rest" by (cases ps) auto
  have "pin_options_from fs compose (memoize self E pkgs) E rest =
          Inr (map upgrade_arg (filter (\<lambda>p. lower p \<in> pkgs) rest), memoize self E pkgs)"
    by (rule pin_options_from_hit) simp
  with assms(1) ps show ?thesis
    by (simp add: has_package_via)
qed

lemma any_has_package_via:
  assumes "env_packages fs compose self E = Inr (pkgs, memoize self E pkgs)" and "ps \<noteq> []"
  shows "any_has_package fs compose self E ps =
           Inr (\<exists>p \<in> set ps. lower p \<in> pkgs, memoize self E pkgs)"
proof -
  from assms(2) obtain p rest where ps: "ps = p # rest" by (cases ps) auto
  have "any_has_package fs compose (memoize self E pkgs) E rest =
          Inr (\<exists>p \<in> set rest. lower p \<in> pkgs, memoize self E pkgs)"
    by (rule any_has_package_hit) simp
  with assms(1) ps show ?thesis
    by (simp add: has_package_via)
qed

lemma pin_options_via:
  assumes "env_packages fs compose self E = Inr (pkgs, memoize self E pkgs)"
  shows "pin_options fs compose self E =
           Inr (map upgrade_arg (filter (\<lambda>p. lower p \<in> pkgs) (package_names self)),
                if package_names self = [] then self else memoize self E pkgs)"
  using pin_options_from_via [OF assms] by (simp add: pin_options_def)

lemma affected_via:
  assumes "env_packages fs compose self E = Inr (pkgs, memoize self E pkgs)"
  shows "affected fs compose self E =
           Inr (package_names self = [] \<or> (\<exists>p \<in> set (package_names self). lower p \<in> pkgs),
                if package_names self = [] then self else memoize self E pkgs)"
  using any_has_package_via [OF assms] by (simp add: affected_def active_def)

subsection \<open>Facts about the small configuration\<close>

lemmas lower_eval = lower_def lower_char_def char_of_def bit_Suc_0_iff

lemmas example_defs = example_fs_def example_fs'_def example_compose_def example_self_def

lemma example_read_E1:
  "read_packages example_fs (example_compose ''E1'') = Inr {''foo'', ''bar''}"
  by (simp add: read_packages_def open_lines_def example_defs lower_eval)

lemma example_read_E2:
  "read_packages example_fs (example_compose ''E2'') = Inr {''bar''}"
  by (simp add: read_packages_def open_lines_def example_defs lower_eval)

lemma example_read_E3:
  "read_packages example_fs (example_compose ''E3'') = Inr {}"
  by (simp add: read_packages_def open_lines_def example_defs)

lemma example_read_E1':
  "read_packages example_fs' (example_compose ''E1'') = Inr {''baz''}"
  by (simp add: read_packages_def open_lines_def example_defs lower_eval)

lemma example_names: "package_names example_self = [''FOO'', ''baz'', ''bar'']"
  by (simp add: package_names_def example_self_def)

lemma example_in_sync: "cache_in_sync fs compose example_self E"
  by (simp add: cache_in_sync_def example_self_def)

subsection \<open>Pin lines and the table's invariant\<close>

lemma is_pin_line_iff: "is_pin_line line \<longleftrightarrow> str_in ''=='' line"
  by (simp add: is_pin_line_def str_in_iff)

lemma pin_name_of_iff:
  "pin_name_of line name \<longleftrightarrow> str_in ''=='' line \<and> name = split1_head ''=='' line"
proof
  assume "pin_name_of line name"
  then obtain rest where d: "line = name @ ''=='' @ rest"
    and m: "\<forall>name' rest'. line = name' @ ''=='' @ rest' \<longrightarrow> length name \<le> length name'"
    unfolding pin_name_of_def by blast
  from d have "str_in ''=='' line" unfolding str_in_iff by blast
  moreover from d m have "split1_head ''=='' line = name" by (rule split1_head_unique)
  ultimately show "str_in ''=='' line \<and> name = split1_head ''=='' line" by simp
next
  assume a: "str_in ''=='' line \<and> name = split1_head ''=='' line"
  then obtain rest where "line = name @ ''=='' @ rest"
    using split1_head_decomp by blast
  moreover have "\<forall>name' rest'. line = name' @ ''=='' @ rest' \<longrightarrow> length name \<le> length name'"
    using a split1_head_leftmost by blast
  ultimately show "pin_name_of line name" unfolding pin_name_of_def by blast
qed

lemma pin_names_image:
  "{lower name | name line. line \<in> set ls \<and> pin_name_of line name} =
   (\<lambda>line. lower (split1_head ''=='' line)) ` {line \<in> set ls. is_pin_line line}"
  by (auto simp: pin_name_of_iff is_pin_line_iff)

lemma file_lines_concat: "concat (file_lines s) = s"
  by (induction s) (auto split: list.splits)

lemma cache_in_sync_reset: "cache_in_sync fs compose (reset self) E"
  by (simp add: cache_in_sync_def reset_def)

lemma cache_in_sync_memoize:
  assumes "cache_in_sync fs compose self E'"
    and "read_packages fs (compose E) = Inr pkgs"
  shows "cache_in_sync fs compose (memoize self E pkgs) E'"
  using assms by (simp add: cache_in_sync_def)

lemma env_packages_keeps_sync:
  assumes "cache_in_sync fs compose self E'"
    and "env_packages fs compose self E = Inr (pkgs, self')"
  shows "cache_in_sync fs compose self' E'"
  using assms
  by (auto simp: env_packages_def cache_in_sync_def split: option.splits sum.splits if_splits)

lemma file_lines_nonempty: "line \<in> set (file_lines s) \<Longrightarrow> line \<noteq> []"
  by (induction s arbitrary: line) (auto split: list.splits if_splits)

lemma file_lines_newline_last:
  "line \<in> set (file_lines s) \<Longrightarrow> CHR 0x0A \<notin> set (butlast line)"
proof (induction s arbitrary: line)
  case Nil
  then show ?case by simp
next
  case (Cons c cs)
  show ?case
  proof (cases "c = CHR 0x0A")
    case True
    with Cons show ?thesis by auto
  next
    case False
    show ?thesis
    proof (cases "file_lines cs")
      case Nil
      with False Cons.prems show ?thesis by simp
    next
      case (Cons l ls)
      then have l: "l \<noteq> []" using file_lines_nonempty [of l cs] by simp
      from Cons False Cons.prems consider "line = c # l" | "line \<in> set ls" by auto
      then show ?thesis
      proof cases
        case 1
        have "CHR 0x0A \<notin> set (butlast l)" using Cons.IH [of l] Cons by simp
        with 1 l False show ?thesis by simp
      next
        case 2
        then show ?thesis using Cons.IH [of line] Cons by simp
      qed
    qed
  qed
qed

lemma example_E1_content: "example_fs ''E1.txt'' = Some ''# pins\<newline>Foo==1.0\<newline>\<newline>bar==2.0\<newline>''"
  by (simp add: example_fs_def)

lemma example_E1_lines: "file_lines ''# pins\<newline>Foo==1.0\<newline>\<newline>bar==2.0\<newline>'' =
    [''# pins\<newline>'', ''Foo==1.0\<newline>'', ''\<newline>'', ''bar==2.0\<newline>'']"
  by simp

lemma example_alt_lines: "file_lines ''bar==2.0\<newline>junk\<newline>Foo==1.0\<newline>'' =
    [''bar==2.0\<newline>'', ''junk\<newline>'', ''Foo==1.0\<newline>'']"
  by simp

lemma example_same_pin_lines: "{line \<in> set (file_lines ''bar==2.0\<newline>junk\<newline>Foo==1.0\<newline>''). is_pin_line line} =
           {line \<in> set (file_lines ''# pins\<newline>Foo==1.0\<newline>\<newline>bar==2.0\<newline>''). is_pin_line line}"
  unfolding example_E1_lines example_alt_lines set_filter [symmetric] by (simp add: is_pin_line_iff insert_commute)

lemma example_E1_pin_names: "{lower name | name line.
              line \<in> set (file_lines ''# pins\<newline>Foo==1.0\<newline>\<newline>bar==2.0\<newline>'') \<and> pin_name_of line name}
           = {''foo'', ''bar''}"
  unfolding pin_names_image example_E1_lines set_filter [symmetric]
  by (simp add: is_pin_line_iff lower_eval)

lemma package_names_reset: "package_names (reset self) = package_names self"
  by (simp add: package_names_def reset_def)

section \<open>Properties of the upgrade features\<close>

text \<open>
  C1. \<^verbatim>\<open>UpgradeSelected.affected\<close>: for every environment, the answer is \<open>True\<close> with no
  look at the table or the file when no package is requested; when packages are requested,
  it is \<open>True\<close> exactly when the lower-cased form of at least one requested name is in the
  set of pins parsed from the environment's output file, and the set is then memoized.
  The table is taken to be in step with the file system for this environment.
\<close>

theorem affected_iff_requested_pinned:
  assumes "cache_in_sync fs compose self E"
    and "read_packages fs (compose E) = Inr pkgs"
  shows "affected fs compose self E =
           (if package_names self = [] then Inr (True, self)
            else Inr (\<exists>p \<in> set (package_names self). lower p \<in> pkgs, memoize self E pkgs))"
  using affected_via [OF env_packages_in_sync [OF assms]] by simp

theorem affected_iff_requested_pinned_witness:
  "affected example_fs example_compose example_self ''E1'' =
     Inr (True, memoize example_self ''E1'' {''foo'', ''bar''}) \<and>
   affected example_fs example_compose example_self ''E3'' =
     Inr (False, memoize example_self ''E3'' {}) \<and>
   affected example_fs example_compose (example_self\<lparr>us_value := None\<rparr>) ''E3'' =
     Inr (True, example_self\<lparr>us_value := None\<rparr>)"
proof -
  have sync: "cache_in_sync example_fs example_compose (example_self\<lparr>us_value := None\<rparr>) ''E3''"
    by (simp add: cache_in_sync_def example_self_def)
  show ?thesis
    using affected_iff_requested_pinned [OF example_in_sync [of example_fs example_compose "''E1''"] example_read_E1]
      affected_iff_requested_pinned [OF example_in_sync [of example_fs example_compose "''E3''"] example_read_E3]
      affected_iff_requested_pinned [OF sync example_read_E3]
    by (simp add: lower_eval package_names_def example_self_def)
qed

text \<open>
  C2. \<^verbatim>\<open>UpgradeAll.enabled\<close> holds exactly when the flag is set and selective upgrade is
  not active; \<^verbatim>\<open>UpgradeAll.pin_options\<close> is the single argument \<open>--upgrade\<close> when enabled
  and empty otherwise; a non-empty list of requested packages disables the feature whatever
  the flag.
\<close>

theorem upgrade_all_mutual_exclusion:
  "(enabled self \<longleftrightarrow> ua_value self \<and> \<not> active (ua_upgrade_selected self)) \<and>
   ua_pin_options self = (if enabled self then [''--upgrade''] else []) \<and>
   (package_names (ua_upgrade_selected self) \<noteq> [] \<longrightarrow>
      \<not> enabled self \<and> ua_pin_options self = [])"
  by (simp add: enabled_def ua_pin_options_def active_def)

theorem upgrade_all_mutual_exclusion_witness:
  "package_names example_self \<noteq> [] \<and>
   \<not> enabled \<lparr>ua_value = True, ua_upgrade_selected = example_self\<rparr> \<and>
   ua_pin_options \<lparr>ua_value = True, ua_upgrade_selected = example_self\<rparr> = [] \<and>
   enabled \<lparr>ua_value = True, ua_upgrade_selected = example_self\<lparr>us_value := Some []\<rparr>\<rparr> \<and>
   ua_pin_options \<lparr>ua_value = True, ua_upgrade_selected = example_self\<lparr>us_value := Some []\<rparr>\<rparr>
     = [''--upgrade'']"
  using upgrade_all_mutual_exclusion [of "\<lparr>ua_value = True, ua_upgrade_selected = example_self\<rparr>"]
    upgrade_all_mutual_exclusion
      [of "\<lparr>ua_value = True, ua_upgrade_selected = example_self\<lparr>us_value := Some []\<rparr>\<rparr>"]
  by (simp add: active_def package_names_def example_self_def)

text \<open>
  C3. \<^verbatim>\<open>UpgradeSelected.pin_options\<close>: the result is, in the order of \<open>package_names\<close>, one
  argument \<open>--upgrade-package=\<close>\<open>p\<close> for each entry \<open>p\<close> whose lower-cased form is among the
  pins parsed from the environment's output file; the other entries contribute nothing, and
  the call does not raise. The table is taken to be in step with the file system for this
  environment.
\<close>

theorem pin_options_pinned_requested:
  assumes "cache_in_sync fs compose self E"
    and "read_packages fs (compose E) = Inr pkgs"
  shows "pin_options fs compose self E =
           Inr (map upgrade_arg (filter (\<lambda>p. lower p \<in> pkgs) (package_names self)),
                if package_names self = [] then self else memoize self E pkgs)"
  using assms by (intro pin_options_via env_packages_in_sync)

theorem pin_options_pinned_requested_witness:
  "pin_options example_fs example_compose example_self ''E1'' =
     Inr ([''--upgrade-package=FOO'', ''--upgrade-package=bar''],
          memoize example_self ''E1'' {''foo'', ''bar''}) \<and>
   pin_options example_fs example_compose example_self ''E2'' =
     Inr ([''--upgrade-package=bar''], memoize example_self ''E2'' {''bar''}) \<and>
   pin_options example_fs example_compose example_self ''E3'' =
     Inr ([], memoize example_self ''E3'' {})"
  using pin_options_pinned_requested [OF example_in_sync [of example_fs example_compose "''E1''"] example_read_E1]
    pin_options_pinned_requested [OF example_in_sync [of example_fs example_compose "''E2''"] example_read_E2]
    pin_options_pinned_requested [OF example_in_sync [of example_fs example_compose "''E3''"] example_read_E3]
  by (simp add: example_names lower_eval)

text \<open>
  C6. When selective upgrade is active, \<open>affected\<close> answers \<open>True\<close> for an environment
  exactly when \<open>pin_options\<close> gives at least one argument for it; both calls return, and
  they leave the object in the same state.
\<close>

theorem affected_iff_pin_options_nonempty:
  assumes "active self"
  shows "\<exists>found opts self'.
           affected fs compose self E = Inr (found, self') \<and>
           pin_options fs compose self E = Inr (opts, self') \<and>
           (found \<longleftrightarrow> opts \<noteq> [])"
proof -
  obtain pkgs where e: "env_packages fs compose self E = Inr (pkgs, memoize self E pkgs)"
    using env_packages_total by blast
  from assms have n: "package_names self \<noteq> []" by (simp add: active_def)
  have "affected fs compose self E =
          Inr (\<exists>p \<in> set (package_names self). lower p \<in> pkgs, memoize self E pkgs)"
    using affected_via [OF e] n by simp
  moreover have "pin_options fs compose self E =
          Inr (map upgrade_arg (filter (\<lambda>p. lower p \<in> pkgs) (package_names self)),
               memoize self E pkgs)"
    using pin_options_via [OF e] n by simp
  moreover have "(\<exists>p \<in> set (package_names self). lower p \<in> pkgs) \<longleftrightarrow>
      map upgrade_arg (filter (\<lambda>p. lower p \<in> pkgs) (package_names self)) \<noteq> []"
    by (simp add: filter_empty_conv)
  ultimately show ?thesis by blast
qed

theorem affected_iff_pin_options_nonempty_witness:
  "active example_self \<and>
   (\<exists>found opts self'.
      affected example_fs example_compose example_self ''E2'' = Inr (found, self') \<and>
      pin_options example_fs example_compose example_self ''E2'' = Inr (opts, self') \<and>
      (found \<longleftrightarrow> opts \<noteq> []))"
proof -
  have a: "active example_self" by (simp add: active_def example_names)
  from affected_iff_pin_options_nonempty [OF a] a show ?thesis by blast
qed

text \<open>
  C7. When the option value is absent (\<open>None\<close>) or empty, \<open>package_names\<close> is empty,
  \<open>active\<close> is false, \<open>pin_options\<close> is empty for every environment and leaves the object
  as it is, \<open>affected\<close> answers \<open>True\<close>, and the remaining operations return a value
  rather than raise.
\<close>

theorem absent_value_inert:
  assumes "us_value self = None \<or> us_value self = Some []"
  shows "package_names self = [] \<and> \<not> active self \<and>
         pin_options fs compose self E = Inr ([], self) \<and>
         affected fs compose self E = Inr (True, self) \<and>
         (\<exists>r. has_package fs compose self E p = Inr r) \<and>
         (\<exists>r. env_packages fs compose self E = Inr r) \<and>
         (\<exists>r. read_packages fs (compose E) = Inr r)"
proof -
  from assms have n: "package_names self = []" by (auto simp: package_names_def)
  obtain pkgs where e: "env_packages fs compose self E = Inr (pkgs, memoize self E pkgs)"
    using env_packages_total by blast
  have "\<exists>r. has_package fs compose self E p = Inr r"
    using has_package_via [OF e] by blast
  moreover have "\<exists>r. env_packages fs compose self E = Inr r" using e by blast
  moreover have "pin_options fs compose self E = Inr ([], self)"
    using n by (simp add: pin_options_def)
  moreover have "affected fs compose self E = Inr (True, self)"
    using n by (simp add: affected_def active_def)
  ultimately show ?thesis using n read_packages_total by (simp add: active_def)
qed

theorem absent_value_inert_witness:
  "pin_options example_fs example_compose (example_self\<lparr>us_value := None\<rparr>) ''E1''
     = Inr ([], example_self\<lparr>us_value := None\<rparr>) \<and>
   pin_options example_fs example_compose (example_self\<lparr>us_value := Some []\<rparr>) ''E1''
     = Inr ([], example_self\<lparr>us_value := Some []\<rparr>) \<and>
   \<not> active (example_self\<lparr>us_value := None\<rparr>) \<and>
   \<not> active (example_self\<lparr>us_value := Some []\<rparr>)"
  using absent_value_inert [of "example_self\<lparr>us_value := None\<rparr>" example_fs example_compose "''E1''"]
    absent_value_inert [of "example_self\<lparr>us_value := Some []\<rparr>" example_fs example_compose "''E1''"]
  by simp

text \<open>
  C4. Pin-line parsing: for every content of the output file, the set computed by
  \<^verbatim>\<open>_read_packages\<close> consists exactly of the lower-cased package names of the pin lines,
  where a pin line is a line containing \<open>==\<close> and its name is what stands before the first
  \<open>==\<close>; so it has at most as many elements as there are pin lines (two pin lines may carry
  the same name). Lines without \<open>==\<close> contribute nothing and the order of the lines is
  immaterial: any other content with the same pin lines gives the same set.
\<close>

theorem read_packages_pin_lines:
  assumes "fs outfile = Some content"
  shows "read_packages fs outfile =
           Inr {lower name | name line. line \<in> set (file_lines content) \<and> pin_name_of line name} \<and>
         card {lower name | name line. line \<in> set (file_lines content) \<and> pin_name_of line name}
           \<le> length (filter is_pin_line (file_lines content)) \<and>
         (\<forall>content'. {line \<in> set (file_lines content'). is_pin_line line} =
                    {line \<in> set (file_lines content). is_pin_line line} \<longrightarrow>
            read_packages (fs(outfile \<mapsto> content')) outfile = read_packages fs outfile)"
proof -
  let ?name = "\<lambda>line. lower (split1_head ''=='' line)"
  have r: "read_packages f outfile = Inr (?name ` {line \<in> set (file_lines t). is_pin_line line})"
    if "f outfile = Some t" for f t
    using read_packages_Some [of f outfile t] that by (simp add: is_pin_line_iff)
  have "card (?name ` set (filter is_pin_line (file_lines content)))
          \<le> card (set (filter is_pin_line (file_lines content)))"
    by (rule card_image_le) simp
  also have "\<dots> \<le> length (filter is_pin_line (file_lines content))"
    by (rule card_length)
  finally have c: "card (?name ` {line \<in> set (file_lines content). is_pin_line line})
          \<le> length (filter is_pin_line (file_lines content))"
    by simp
  show ?thesis
    unfolding pin_names_image
    using r [of fs content] assms c by (simp add: r)
qed

theorem read_packages_pin_lines_witness:
  "read_packages example_fs ''E1.txt'' = Inr {''foo'', ''bar''} \<and>
   length (filter is_pin_line (file_lines ''# pins\<newline>Foo==1.0\<newline>\<newline>bar==2.0\<newline>'')) = 2 \<and>
   length (filter (\<lambda>line. \<not> is_pin_line line)
     (file_lines ''# pins\<newline>Foo==1.0\<newline>\<newline>bar==2.0\<newline>'')) = 2 \<and>
   read_packages (example_fs(''E1.txt'' \<mapsto> ''bar==2.0\<newline>junk\<newline>Foo==1.0\<newline>'')) ''E1.txt''
     = Inr {''foo'', ''bar''}"
proof -
  have n: "length (filter is_pin_line (file_lines ''# pins\<newline>Foo==1.0\<newline>\<newline>bar==2.0\<newline>'')) = 2 \<and>
   length (filter (\<lambda>line. \<not> is_pin_line line)
     (file_lines ''# pins\<newline>Foo==1.0\<newline>\<newline>bar==2.0\<newline>'')) = 2"
    unfolding example_E1_lines by (simp add: is_pin_line_iff)
  from read_packages_pin_lines [of example_fs "''E1.txt''", OF example_E1_content]
    example_same_pin_lines
  show ?thesis
    unfolding example_E1_pin_names using n by simp
qed



text \<open>
  C8. Reset round-trip: \<open>reset\<close> empties the table, whatever it held. The next query for an
  environment therefore reads the output file as it is now: \<^verbatim>\<open>_env_packages\<close> and
  \<open>has_package\<close> answer from the pins parsed from the current file system \<open>fs'\<close>, and so do
  \<open>pin_options\<close> and \<open>affected\<close>, which consult the file whenever a package is requested.
\<close>

theorem reset_rereads_output:
  assumes "read_packages fs' (compose E) = Inr pkgs"
  shows "env_packages_cache (reset self) = Map.empty \<and>
         env_packages fs' compose (reset self) E = Inr (pkgs, memoize (reset self) E pkgs) \<and>
         has_package fs' compose (reset self) E p =
           Inr (lower p \<in> pkgs, memoize (reset self) E pkgs) \<and>
         pin_options fs' compose (reset self) E =
           Inr (map upgrade_arg (filter (\<lambda>p. lower p \<in> pkgs) (package_names self)),
                if package_names self = [] then reset self else memoize (reset self) E pkgs) \<and>
         affected fs' compose (reset self) E =
           Inr (package_names self = [] \<or> (\<exists>p \<in> set (package_names self). lower p \<in> pkgs),
                if package_names self = [] then reset self else memoize (reset self) E pkgs)"
proof -
  have e: "env_packages fs' compose (reset self) E = Inr (pkgs, memoize (reset self) E pkgs)"
    using cache_in_sync_reset [of fs' compose self E] assms by (rule env_packages_in_sync)
  have "env_packages_cache (reset self) = Map.empty" by (simp add: reset_def)
  then show ?thesis
    using e has_package_via [OF e, of p] pin_options_via [OF e] affected_via [OF e]
    by (simp only: package_names_reset simp_thms)
qed

theorem reset_rereads_output_witness:
  "has_package example_fs example_compose example_self ''E1'' ''baz'' =
     Inr (False, memoize example_self ''E1'' {''foo'', ''bar''}) \<and>
   has_package example_fs' example_compose
       (reset (memoize example_self ''E1'' {''foo'', ''bar''})) ''E1'' ''baz'' =
     Inr (True, memoize example_self ''E1'' {''baz''}) \<and>
   has_package example_fs' example_compose
       (reset (memoize example_self ''E1'' {''foo'', ''bar''})) ''E1'' ''foo'' =
     Inr (False, memoize example_self ''E1'' {''baz''})"
proof -
  have e: "env_packages example_fs example_compose example_self ''E1'' =
             Inr ({''foo'', ''bar''}, memoize example_self ''E1'' {''foo'', ''bar''})"
    using example_in_sync [of example_fs example_compose "''E1''"] example_read_E1
    by (rule env_packages_in_sync)
  have r: "memoize (reset (memoize example_self ''E1'' {''foo'', ''bar''})) ''E1'' {''baz''}
             = memoize example_self ''E1'' {''baz''}"
    by (simp add: reset_def example_self_def)
  show ?thesis
    using has_package_via [OF e, of "''baz''"]
      reset_rereads_output [of example_fs' example_compose "''E1''" "{''baz''}"
        "memoize example_self ''E1'' {''foo'', ''bar''}" "''baz''"]
      reset_rereads_output [of example_fs' example_compose "''E1''" "{''baz''}"
        "memoize example_self ''E1'' {''foo'', ''bar''}" "''foo''"]
      example_read_E1'
    unfolding r by (simp add: lower_eval)
qed

text \<open>
  C9. Cache snapshot: once a query has gone through \<^verbatim>\<open>_env_packages\<close> for an environment,
  the set it returned is the table's entry, and every later query for that environment, on
  any file system \<open>fs'\<close>, is answered from that very set and leaves the object as it is; so
  repeated queries give identical results until \<open>reset\<close> is called.
\<close>

theorem cache_snapshot:
  assumes "env_packages fs compose self0 E = Inr (pkgs, self)"
  shows "env_packages_cache self E = Some pkgs \<and>
         (\<forall>fs' p.
            env_packages fs' compose self E = Inr (pkgs, self) \<and>
            has_package fs' compose self E p = Inr (lower p \<in> pkgs, self) \<and>
            pin_options fs' compose self E =
              Inr (map upgrade_arg (filter (\<lambda>p. lower p \<in> pkgs) (package_names self)), self) \<and>
            affected fs' compose self E =
              Inr (package_names self = [] \<or>
                   (\<exists>p \<in> set (package_names self). lower p \<in> pkgs), self))"
proof -
  have c: "env_packages_cache self E = Some pkgs"
    using assms by (auto simp: env_packages_def split: option.splits sum.splits)
  have "pin_options fs' compose self E =
          Inr (map upgrade_arg (filter (\<lambda>p. lower p \<in> pkgs) (package_names self)), self)" for fs'
    using pin_options_from_hit [OF c] by (simp add: pin_options_def)
  moreover have "affected fs' compose self E =
          Inr (package_names self = [] \<or>
               (\<exists>p \<in> set (package_names self). lower p \<in> pkgs), self)" for fs'
    using any_has_package_hit [OF c, of fs' compose "package_names self"]
    by (simp add: affected_def active_def)
  ultimately show ?thesis
    using c env_packages_hit [OF c] has_package_hit [OF c] by simp
qed

theorem cache_snapshot_witness:
  "env_packages example_fs example_compose example_self ''E1'' =
     Inr ({''foo'', ''bar''}, memoize example_self ''E1'' {''foo'', ''bar''}) \<and>
   read_packages example_fs' (example_compose ''E1'') = Inr {''baz''} \<and>
   has_package example_fs' example_compose (memoize example_self ''E1'' {''foo'', ''bar''})
       ''E1'' ''baz'' =
     Inr (False, memoize example_self ''E1'' {''foo'', ''bar''}) \<and>
   pin_options example_fs' example_compose (memoize example_self ''E1'' {''foo'', ''bar''}) ''E1'' =
     Inr ([''--upgrade-package=FOO'', ''--upgrade-package=bar''],
          memoize example_self ''E1'' {''foo'', ''bar''})"
proof -
  have e: "env_packages example_fs example_compose example_self ''E1'' =
             Inr ({''foo'', ''bar''}, memoize example_self ''E1'' {''foo'', ''bar''})"
    using example_in_sync [of example_fs example_compose "''E1''"] example_read_E1
    by (rule env_packages_in_sync)
  have n: "package_names (memoize example_self ''E1'' {''foo'', ''bar''}) = [''FOO'', ''baz'', ''bar'']"
    by (simp add: package_names_def example_self_def)
  from cache_snapshot [OF e] have
    "has_package example_fs' example_compose (memoize example_self ''E1'' {''foo'', ''bar''})
       ''E1'' ''baz'' =
     Inr (lower ''baz'' \<in> {''foo'', ''bar''}, memoize example_self ''E1'' {''foo'', ''bar''})"
    and  "pin_options example_fs' example_compose (memoize example_self ''E1'' {''foo'', ''bar''}) ''E1'' =
     Inr (map upgrade_arg (filter (\<lambda>p. lower p \<in> {''foo'', ''bar''})
       (package_names (memoize example_self ''E1'' {''foo'', ''bar''}))),
          memoize example_self ''E1'' {''foo'', ''bar''})"
    by blast+
  then show ?thesis
    unfolding n using e example_read_E1' by (simp add: lower_eval)
qed

text \<open>
  C10. Case-insensitive matching: \<open>has_package\<close> depends on the package name only through
  its lower-cased form, so it gives the same for \<open>p\<close> and for \<open>lower p\<close>; and a package pinned
  by a line \<open>name==version\<close> of the output file is found under any spelling that agrees with
  \<open>name\<close> up to case (the table being in step with the file system).
\<close>

theorem has_package_case_insensitive:
  "has_package fs compose self E p = has_package fs compose self E (lower p) \<and>
   (lower p = lower q \<longrightarrow> has_package fs compose self E p = has_package fs compose self E q) \<and>
   (cache_in_sync fs compose self E \<and> fs (compose E) = Some content \<and>
    name @ ''=='' @ version \<in> set (file_lines content) \<and> CHR ''='' \<notin> set name \<and>
    lower p = lower name \<longrightarrow>
      (\<exists>self'. has_package fs compose self E p = Inr (True, self')))"
proof -
  have 1: "has_package fs compose self E p = has_package fs compose self E (lower p)"
    by (simp add: has_package_def lower_idem split: sum.splits)
  have 2: "has_package fs compose self E p = has_package fs compose self E q"
    if "lower p = lower q"
    using that by (simp add: has_package_def split: sum.splits)
  have 3: "\<exists>self'. has_package fs compose self E p = Inr (True, self')"
    if s: "cache_in_sync fs compose self E" and f: "fs (compose E) = Some content"
      and l: "name @ ''=='' @ version \<in> set (file_lines content)"
      and n: "CHR ''='' \<notin> set name" and p: "lower p = lower name"
  proof -
    let ?line = "name @ ''=='' @ version"
    let ?pkgs = "(\<lambda>line. lower (split1_head ''=='' line)) `
                   {line \<in> set (file_lines content). str_in ''=='' line}"
    have r: "read_packages fs (compose E) = Inr ?pkgs"
      using f by (rule read_packages_Some)
    have "str_in ''=='' ?line" unfolding str_in_iff by blast
    moreover have "split1_head ''=='' ?line = name"
      using n by (rule split1_head_no_eq)
    ultimately have "lower name \<in> ?pkgs" using l by force
    with p have "lower p \<in> ?pkgs" by simp
    then show ?thesis
      using has_package_via [OF env_packages_in_sync [OF s r], of p] by simp
  qed
  from 1 2 3 show ?thesis by blast
qed

theorem has_package_case_insensitive_witness:
  "has_package example_fs example_compose example_self ''E1'' ''foo'' =
     Inr (True, memoize example_self ''E1'' {''foo'', ''bar''}) \<and>
   has_package example_fs example_compose example_self ''E1'' ''FOO'' =
     Inr (True, memoize example_self ''E1'' {''foo'', ''bar''}) \<and>
   has_package example_fs example_compose example_self ''E1'' ''FoO'' =
     has_package example_fs example_compose example_self ''E1'' ''foo''"
proof -
  have e: "env_packages example_fs example_compose example_self ''E1'' =
             Inr ({''foo'', ''bar''}, memoize example_self ''E1'' {''foo'', ''bar''})"
    using example_in_sync [of example_fs example_compose "''E1''"] example_read_E1
    by (rule env_packages_in_sync)
  have f: "example_fs (example_compose ''E1'') = Some ''# pins\<newline>Foo==1.0\<newline>\<newline>bar==2.0\<newline>''"
    by (simp add: example_defs)
  have l: "''Foo'' @ ''=='' @ ''1.0\<newline>'' \<in> set (file_lines ''# pins\<newline>Foo==1.0\<newline>\<newline>bar==2.0\<newline>'')"
    unfolding example_E1_lines by simp
  have n: "CHR ''='' \<notin> set ''Foo''" by simp
  have 1: "lower ''foo'' = lower ''Foo''" and 2: "lower ''FOO'' = lower ''Foo''"
    and 3: "lower ''FoO'' = lower ''foo''"
    by (simp_all add: lower_eval)
  note s = example_in_sync [of example_fs example_compose "''E1''"]
  note t = has_package_case_insensitive [of example_fs example_compose example_self "''E1''"]
  from t [of "''foo''" "''foo''" "''# pins\<newline>Foo==1.0\<newline>\<newline>bar==2.0\<newline>''" "''Foo''" "''1.0\<newline>''"] s f l n 1
  have a: "\<exists>self'. has_package example_fs example_compose example_self ''E1'' ''foo'' = Inr (True, self')"
    by blast
  from t [of "''FOO''" "''FOO''" "''# pins\<newline>Foo==1.0\<newline>\<newline>bar==2.0\<newline>''" "''Foo''" "''1.0\<newline>''"] s f l n 2
  have b: "\<exists>self'. has_package example_fs example_compose example_self ''E1'' ''FOO'' = Inr (True, self')"
    by blast
  from t [of "''FoO''" "''foo''"] 3
  have c: "has_package example_fs example_compose example_self ''E1'' ''FoO'' =
     has_package example_fs example_compose example_self ''E1'' ''foo''"
    by blast
  from a b c show ?thesis
    using has_package_via [OF e, of "''foo''"] has_package_via [OF e, of "''FOO''"]
    by auto
qed

end
